theory Spec2Isabelle
  imports Main
begin

section \<open>The content-addressed store of \<open>src/ipfs_gateway.py\<close>\<close>

text \<open>
  The gateway keeps two pieces of durable state: the files of the file system (the blobs
  live in \<open>STORE_DIR\<close>) and the SQLite table \<open>objects\<close>. Both are threaded
  through every operation as one record. Exceptions are values of type \<open>error\<close>; an
  operation that can raise returns its result together with the state it leaves behind,
  so that a failure after a partial mutation would be visible.

  Modelling choices, each local to one definition below:
  \<^item> a file system is a map from normalised path strings to the bytes of regular files
    (directories and links are not modelled, and the database file is kept apart from
    the map);
  \<^item> Python \<open>bytes\<close> are lists of 8-bit characters;
  \<^item> \<open>hashlib.sha256(data).hexdigest()\<close> is library code and is a parameter
    \<open>sha256_hexdigest\<close> of the operations that hash;
  \<^item> a time stamp is the clock reading in microseconds. The source stores
    \<open>datetime.isoformat()\<close> text and SQLite compares it bytewise; on the fixed-width
    fields of that format (years have four digits, the fraction is either absent or has
    six digits) the bytewise order is the chronological one;
  \<^item> the table is the list of its rows in rowid order, which is the order of a full scan.
\<close>

type_synonym bytes = "char list"

type_synonym timestamp = int

record ContentObject =
  cid :: string
  name :: string
  size_bytes :: int
  mime_type :: string
  pinned :: bool
  uploaded_at :: timestamp
  local_path :: string

datatype error =
  FileNotFoundError string
  | SameFileError string
  | TypeError

text \<open>The line \<open>print(f"Error deleting {cid}: {e}")\<close> of \<open>gc\<close>.\<close>

datatype message = Error_deleting string error

record world =
  home_dir :: string
  fs :: "string \<Rightarrow> bytes option"
  db :: "ContentObject list"
  out :: "message list"

text \<open>\<open>STORE_DIR = Path.home() / ".blackroad" / "ipfs-store"\<close>, and \<open>STORE_DIR / cid\<close>.\<close>

definition STORE_DIR :: "world \<Rightarrow> string" where
  "STORE_DIR s = home_dir s @ ''/.blackroad/ipfs-store''"

definition path_join :: "string \<Rightarrow> string \<Rightarrow> string" where
  "path_join d c = d @ ''/'' @ c"

text \<open>\<open>timedelta(hours=24)\<close> in microseconds, and one second.\<close>

definition HOURS_24 :: timestamp where
  "HOURS_24 = 24 * 3600 * 1000000"

definition SECOND :: timestamp where
  "SECOND = 1000000"

subsection \<open>Digest\<close>

text \<open>\<open>_compute_cid\<close>: \<open>f"Qm{hash_obj.hexdigest()[:44]}"\<close>.\<close>

definition compute_cid :: "(bytes \<Rightarrow> string) \<Rightarrow> bytes \<Rightarrow> string" where
  "compute_cid sha256_hexdigest data = ''Qm'' @ take 44 (sha256_hexdigest data)"

subsection \<open>Path components\<close>

text \<open>
  \<open>Path.name\<close> is the last component of a normalised path; \<open>Path.suffix\<close> is the
  part of the name from its last dot on, provided that dot is neither the first nor the
  last character of the name (\<open>i = name.rfind('.')\<close>, \<open>0 < i < len(name) - 1\<close>).
\<close>

definition path_name :: "string \<Rightarrow> string" where
  "path_name p = rev (takeWhile (\<lambda>c. c \<noteq> CHR ''/'') (rev p))"

definition path_suffix :: "string \<Rightarrow> string" where
  "path_suffix p =
     (let n = path_name p;
          e = rev (takeWhile (\<lambda>c. c \<noteq> CHR ''.'') (rev n))
      in if CHR ''.'' \<in> set n \<and> e \<noteq> [] \<and> length e + 1 < length n
         then CHR ''.'' # e else [])"

subsection \<open>Metadata index\<close>

text \<open>
  \<open>_store_metadata\<close>: \<open>INSERT OR REPLACE\<close>. The table has \<open>cid\<close> as primary key and
  \<open>local_path\<close> declared \<open>UNIQUE\<close>; SQLite removes every row that conflicts with the
  new one on either column and then inserts the new row, which gets the largest rowid.
\<close>

definition store_metadata :: "world \<Rightarrow> ContentObject \<Rightarrow> world" where
  "store_metadata s obj =
     s\<lparr>db := filter (\<lambda>r. cid r \<noteq> cid obj \<and> local_path r \<noteq> local_path obj) (db s) @ [obj]\<rparr>"

text \<open>\<open>get\<close>: \<open>SELECT * FROM objects WHERE cid = ?\<close>, \<open>fetchone\<close>.\<close>

definition get :: "world \<Rightarrow> string \<Rightarrow> ContentObject option" where
  "get s c = find (\<lambda>r. cid r = c) (db s)"

subsection \<open>Adding content\<close>

text \<open>The block \<open># Determine MIME type\<close> of \<open>add_file\<close>.\<close>

definition determine_mime_type :: "string \<Rightarrow> string" where
  "determine_mime_type path =
     (if path_suffix path = ''.json'' then ''application/json''
      else if path_suffix path = ''.txt'' then ''text/plain''
      else if path_suffix path = ''.md'' then ''text/markdown''
      else ''application/octet-stream'')"

text \<open>
  \<open>add_file\<close>. \<open>shutil.copy2\<close> raises \<open>SameFileError\<close> when source and destination
  are the same file, before it writes anything.
\<close>

definition add_file ::
  "(bytes \<Rightarrow> string) \<Rightarrow> world \<Rightarrow> timestamp \<Rightarrow> string \<Rightarrow> (error + ContentObject) \<times> world" where
  "add_file sha256_hexdigest s now path =
     (case fs s path of
        None \<Rightarrow> (Inl (FileNotFoundError path), s)
      | Some data \<Rightarrow>
          (let c = compute_cid sha256_hexdigest data;
               mime = determine_mime_type path;
               lp = path_join (STORE_DIR s) c
           in if path = lp then (Inl (SameFileError path), s)
              else
                (let s1 = s\<lparr>fs := (fs s)(lp \<mapsto> data)\<rparr>;
                     obj = \<lparr>cid = c, name = path_name path, size_bytes = int (length data),
                            mime_type = mime, pinned = False, uploaded_at = now,
                            local_path = lp\<rparr>
                 in (Inr obj, store_metadata s1 obj))))"

text \<open>
  \<open>add_json\<close>. The argument \<open>json\<close> is \<open>json.dumps(data, indent=2).encode('utf-8')\<close>,
  or \<open>None\<close> when the dictionary cannot be serialised (\<open>TypeError\<close>, raised before the
  store is touched). \<open>json.dump\<close> to the opened file writes the same text.
\<close>

definition add_json ::
  "(bytes \<Rightarrow> string) \<Rightarrow> world \<Rightarrow> timestamp \<Rightarrow> bytes option \<Rightarrow> string
     \<Rightarrow> (error + ContentObject) \<times> world" where
  "add_json sha256_hexdigest s now json nm =
     (case json of
        None \<Rightarrow> (Inl TypeError, s)
      | Some json_bytes \<Rightarrow>
          (let c = compute_cid sha256_hexdigest json_bytes;
               lp = path_join (STORE_DIR s) c;
               s1 = s\<lparr>fs := (fs s)(lp \<mapsto> json_bytes)\<rparr>;
               obj = \<lparr>cid = c, name = nm, size_bytes = int (length json_bytes),
                      mime_type = ''application/json'', pinned = False, uploaded_at = now,
                      local_path = lp\<rparr>
           in (Inr obj, store_metadata s1 obj)))"

subsection \<open>Retention\<close>

text \<open>\<open>pin\<close> and \<open>unpin\<close>: \<open>UPDATE objects SET pinned = ? WHERE cid = ?\<close>.\<close>

definition pin :: "world \<Rightarrow> string \<Rightarrow> bool \<times> world" where
  "pin s c =
     (case get s c of
        None \<Rightarrow> (False, s)
      | Some obj \<Rightarrow>
          (True, s\<lparr>db := map (\<lambda>r. if cid r = c then r\<lparr>pinned := True\<rparr> else r) (db s)\<rparr>))"

definition unpin :: "world \<Rightarrow> string \<Rightarrow> bool \<times> world" where
  "unpin s c =
     (case get s c of
        None \<Rightarrow> (False, s)
      | Some obj \<Rightarrow>
          (True, s\<lparr>db := map (\<lambda>r. if cid r = c then r\<lparr>pinned := False\<rparr> else r) (db s)\<rparr>))"

text \<open>\<open>Path(local_path).unlink()\<close> raises \<open>FileNotFoundError\<close> on a missing file.\<close>

definition unlink :: "(string \<Rightarrow> bytes option) \<Rightarrow> string \<Rightarrow> error + (string \<Rightarrow> bytes option)" where
  "unlink f p = (case f p of None \<Rightarrow> Inl (FileNotFoundError p) | Some d \<Rightarrow> Inr (f(p := None)))"

text \<open>
  The \<open>SELECT cid, local_path ... WHERE pinned = 0 AND uploaded_at < ?\<close> of \<open>gc\<close>.
\<close>

definition select_eligible :: "ContentObject list \<Rightarrow> timestamp \<Rightarrow> (string \<times> string) list" where
  "select_eligible rows cutoff_time =
     map (\<lambda>r. (cid r, local_path r))
       (filter (\<lambda>r. \<not> pinned r \<and> uploaded_at r < cutoff_time) rows)"

text \<open>
  The loop of \<open>gc\<close>. \<open>unlink\<close> and the \<open>DELETE\<close> are in one \<open>try\<close> block: when
  \<open>unlink\<close> raises, the \<open>DELETE\<close> is skipped, the message is printed and the loop goes on.
\<close>

fun gc_loop :: "(string \<times> string) list \<Rightarrow> world \<Rightarrow> world" where
  "gc_loop [] s = s"
| "gc_loop ((c, lp) # rows) s =
     gc_loop rows
       (case unlink (fs s) lp of
          Inl e \<Rightarrow> s\<lparr>out := out s @ [Error_deleting c e]\<rparr>
        | Inr f \<Rightarrow> s\<lparr>fs := f, db := filter (\<lambda>r. cid r \<noteq> c) (db s)\<rparr>)"

text \<open>\<open>gc\<close>; \<open>now\<close> is the reading of \<open>datetime.now()\<close>. It returns \<open>len(rows)\<close>.\<close>

definition gc :: "world \<Rightarrow> timestamp \<Rightarrow> int \<times> world" where
  "gc s now =
     (let cutoff_time = now - HOURS_24;
          rows = select_eligible (db s) cutoff_time
      in (int (length rows), gc_loop rows s))"

subsection \<open>Export\<close>

text \<open>
  The dictionary \<open>{'version': 1, 'objects': objects}\<close>; \<open>asdict(obj)\<close> has exactly the
  fields of the record, so a record stands for it.
\<close>

record car =
  version :: int
  objects :: "ContentObject list"

text \<open>The loop of \<open>export_car\<close>, appending to \<open>objects\<close>.\<close>

fun export_loop :: "world \<Rightarrow> string list \<Rightarrow> ContentObject list \<Rightarrow> ContentObject list" where
  "export_loop s [] acc = acc"
| "export_loop s (c # cids) acc =
     export_loop s cids (case get s c of None \<Rightarrow> acc | Some obj \<Rightarrow> acc @ [obj])"

definition export_bundle :: "world \<Rightarrow> string list \<Rightarrow> car" where
  "export_bundle s cids = \<lparr>version = 1, objects = export_loop s cids []\<rparr>"

text \<open>
  \<open>export_car\<close> writes the serialised bundle to \<open>output_path\<close>; \<open>json_dump\<close> stands for
  \<open>json.dump(_, f, indent=2)\<close>.
\<close>

definition export_car :: "(car \<Rightarrow> bytes) \<Rightarrow> world \<Rightarrow> string list \<Rightarrow> string \<Rightarrow> world" where
  "export_car json_dump s cids output_path =
     s\<lparr>fs := (fs s)(output_path \<mapsto> json_dump (export_bundle s cids))\<rparr>"

subsection \<open>Sequences of calls\<close>

text \<open>
  The mutating operations of the class as one datatype, each with the arguments of the
  call and, where the operation reads the clock, the reading it gets. \<open>run\<close>
  performs a list of calls from left to right and drops the return values.
\<close>

datatype call =
  Add_file timestamp string
  | Add_json timestamp "bytes option" string
  | Pin string
  | Unpin string
  | Gc timestamp
  | Export_car "string list" string

fun exec :: "(bytes \<Rightarrow> string) \<Rightarrow> (car \<Rightarrow> bytes) \<Rightarrow> world \<Rightarrow> call \<Rightarrow> world" where
  "exec h d s (Add_file now path) = snd (add_file h s now path)"
| "exec h d s (Add_json now json nm) = snd (add_json h s now json nm)"
| "exec h d s (Pin c) = snd (pin s c)"
| "exec h d s (Unpin c) = snd (unpin s c)"
| "exec h d s (Gc now) = snd (gc s now)"
| "exec h d s (Export_car cids output_path) = export_car d s cids output_path"

definition run :: "(bytes \<Rightarrow> string) \<Rightarrow> (car \<Rightarrow> bytes) \<Rightarrow> world \<Rightarrow> call list \<Rightarrow> world" where
  "run h d s calls = foldl (exec h d) s calls"

subsection \<open>Properties of a store\<close>

text \<open>
  The constraints of the table: \<open>cid TEXT PRIMARY KEY\<close> and \<open>local_path TEXT UNIQUE\<close>.
\<close>

definition wf_db :: "ContentObject list \<Rightarrow> bool" where
  "wf_db rows = (distinct (map cid rows) \<and> distinct (map local_path rows))"

text \<open>A path inside \<open>STORE_DIR\<close>.\<close>

definition in_store :: "world \<Rightarrow> string \<Rightarrow> bool" where
  "in_store s p = (take (length (STORE_DIR s) + 1) p = STORE_DIR s @ ''/'')"

text \<open>
  Referential integrity: the blob of every record can be read, and every file of the
  store directory is the blob of a record.
\<close>

definition ref_integrity :: "world \<Rightarrow> bool" where
  "ref_integrity s =
     ((\<forall>r \<in> set (db s). fs s (local_path r) \<noteq> None) \<and>
      (\<forall>p. in_store s p \<and> fs s p \<noteq> None \<longrightarrow> (\<exists>r \<in> set (db s). local_path r = p)))"

text \<open>
  A store as the gateway leaves it: the table constraints hold, every row points at
  \<open>STORE_DIR / cid\<close> (the only location \<open>add_file\<close> and \<open>add_json\<close> use), and
  referential integrity holds.
\<close>

definition store_ok :: "world \<Rightarrow> bool" where
  "store_ok s =
     (wf_db (db s) \<and>
      (\<forall>r \<in> set (db s). local_path r = path_join (STORE_DIR s) (cid r)) \<and>
      ref_integrity s)"

text \<open>Every \<open>export_car\<close> of the list writes its bundle outside the store directory.\<close>

fun exports_outside :: "world \<Rightarrow> call list \<Rightarrow> bool" where
  "exports_outside s [] = True"
| "exports_outside s (Export_car cids output_path # calls) =
     (\<not> in_store s output_path \<and> exports_outside s calls)"
| "exports_outside s (c # calls) = exports_outside s calls"

subsection \<open>Example stores\<close>

text \<open>
  Concrete stores for the closed instances below. The home directory is \<open>/h\<close>;
  \<open>demo_obj c p t\<close> is a record for identifier \<open>c\<close> with pin flag \<open>p\<close>, uploaded at
  \<open>t\<close>; \<open>demo_store rows blobs\<close> has the rows \<open>rows\<close> and a two-byte blob for each
  identifier of \<open>blobs\<close>. \<open>demo_fresh\<close> is a store nothing was added to yet, beside two
  source files \<open>/tmp/a.txt\<close> and \<open>/tmp/b.md\<close> with the same two bytes. The clock reads \<open>demo_now\<close>.
\<close>

definition demo_obj :: "string \<Rightarrow> bool \<Rightarrow> timestamp \<Rightarrow> ContentObject" where
  "demo_obj c p t =
     \<lparr>cid = c, name = ''f.txt'', size_bytes = 2, mime_type = ''text/plain'', pinned = p,
      uploaded_at = t, local_path = ''/h/.blackroad/ipfs-store/'' @ c\<rparr>"

definition demo_store :: "ContentObject list \<Rightarrow> string list \<Rightarrow> world" where
  "demo_store rows blobs =
     \<lparr>home_dir = ''/h'',
      fs = map_of (map (\<lambda>c. (''/h/.blackroad/ipfs-store/'' @ c, ''hi'')) blobs),
      db = rows, out = []\<rparr>"

definition demo_fresh :: world where
  "demo_fresh =
     \<lparr>home_dir = ''/h'', fs = [''/tmp/a.txt'' \<mapsto> ''hi'', ''/tmp/b.md'' \<mapsto> ''hi''], db = [],
      out = []\<rparr>"

definition demo_now :: timestamp where
  "demo_now = 200000000000"

section \<open>The garbage-collection sweep\<close>

subsection \<open>What the loop does to the files and to the table\<close>

lemma find_SomeD: "find P xs = Some y \<Longrightarrow> y \<in> set xs \<and> P y"
  by (induction xs) (auto split: if_splits)

lemma get_SomeD: "get s c = Some r \<Longrightarrow> r \<in> set (db s) \<and> cid r = c"
  by (auto simp: get_def dest: find_SomeD)

lemma find_cid_filter:
  "distinct (map cid xs) \<Longrightarrow>
   find (\<lambda>r. cid r = c) (filter Q xs) =
     (case find (\<lambda>r. cid r = c) xs of None \<Rightarrow> None | Some r \<Rightarrow> if Q r then Some r else None)"
proof (induction xs)
  case Nil
  then show ?case by simp
next
  case (Cons x xs)
  have "\<And>y. find (\<lambda>r. cid r = cid x) xs = Some y \<Longrightarrow> False"
    using Cons.prems by (auto dest!: find_SomeD simp: image_iff)
  with Cons show ?case
    by (auto simp: find_None_iff split: option.splits)
qed

lemma wf_db_same_path:
  "wf_db rows \<Longrightarrow> r \<in> set rows \<Longrightarrow> r' \<in> set rows \<Longrightarrow>
   local_path r' = local_path r \<Longrightarrow> r' = r"
  by (meson wf_db_def distinct_map inj_onD)

lemma wf_db_same_cid:
  "wf_db rows \<Longrightarrow> r \<in> set rows \<Longrightarrow> r' \<in> set rows \<Longrightarrow> cid r' = cid r \<Longrightarrow> r' = r"
  by (meson wf_db_def distinct_map inj_onD)

lemma gc_loop_home_dir: "home_dir (gc_loop rows s) = home_dir s"
  by (induction rows s rule: gc_loop.induct) (auto split: sum.splits)

text \<open>Every path of the work list is absent afterwards; no other file is touched.\<close>

lemma gc_loop_fs:
  "fs (gc_loop rows s) p = (if p \<in> snd ` set rows then None else fs s p)"
proof (induction rows s rule: gc_loop.induct)
  case (1 s)
  then show ?case by simp
next
  case (2 c lp rows s)
  then show ?case
    by (cases "fs s lp") (auto simp: unlink_def)
qed

text \<open>
  A row leaves the table exactly when the work list names its identifier together with
  a path at which a file was present.
\<close>

lemma gc_loop_db:
  "distinct (map snd rows) \<Longrightarrow>
   db (gc_loop rows s) =
     filter (\<lambda>r. \<not> (\<exists>lp. (cid r, lp) \<in> set rows \<and> fs s lp \<noteq> None)) (db s)"
proof (induction rows s rule: gc_loop.induct)
  case (1 s)
  then show ?case by simp
next
  case (2 c lp rows s)
  show ?case
  proof (cases "fs s lp")
    case None
    with 2 show ?thesis
      by (auto simp: unlink_def intro!: filter_cong)
  next
    case (Some d)
    have "lp \<notin> snd ` set rows" using "2.prems" by auto
    with 2 Some show ?thesis
      by (auto simp: unlink_def intro!: filter_cong)
  qed
qed

lemma select_eligible_distinct:
  "wf_db rows \<Longrightarrow> distinct (map snd (select_eligible rows t))"
  by (simp add: wf_db_def select_eligible_def o_def distinct_map_filter)

lemma select_eligible_mem:
  "(c, lp) \<in> set (select_eligible rows t) \<longleftrightarrow>
     (\<exists>r \<in> set rows. \<not> pinned r \<and> uploaded_at r < t \<and> cid r = c \<and> local_path r = lp)"
  by (auto simp: select_eligible_def)

lemma gc_home_dir: "home_dir (snd (gc s now)) = home_dir s"
  by (simp add: gc_def Let_def gc_loop_home_dir)

lemma gc_fs:
  "fs (snd (gc s now)) p =
     (if p \<in> snd ` set (select_eligible (db s) (now - HOURS_24)) then None else fs s p)"
  by (simp add: gc_def Let_def gc_loop_fs)

lemma gc_db:
  assumes "wf_db (db s)"
  shows "db (snd (gc s now)) =
     filter (\<lambda>r. \<not> (\<not> pinned r \<and> uploaded_at r < now - HOURS_24 \<and> fs s (local_path r) \<noteq> None))
       (db s)"
proof -
  let ?rows = "select_eligible (db s) (now - HOURS_24)"
  have "db (snd (gc s now)) =
      filter (\<lambda>r. \<not> (\<exists>lp. (cid r, lp) \<in> set ?rows \<and> fs s lp \<noteq> None)) (db s)"
    using gc_loop_db [OF select_eligible_distinct [OF assms]]
    by (simp add: gc_def Let_def)
  also have "\<dots> =
      filter (\<lambda>r. \<not> (\<not> pinned r \<and> uploaded_at r < now - HOURS_24 \<and> fs s (local_path r) \<noteq> None))
        (db s)"
  proof (rule filter_cong [OF refl])
    fix r
    assume r: "r \<in> set (db s)"
    have "r' = r" if "r' \<in> set (db s)" "cid r' = cid r" for r'
      using wf_db_same_cid [OF assms r] that by blast
    then show "(\<not> (\<exists>lp. (cid r, lp) \<in> set ?rows \<and> fs s lp \<noteq> None)) =
        (\<not> (\<not> pinned r \<and> uploaded_at r < now - HOURS_24 \<and> fs s (local_path r) \<noteq> None))"
      using r by (fastforce simp: select_eligible_mem)
  qed
  finally show ?thesis .
qed

text \<open>
  The sweep seen through \<open>get\<close>: a record disappears exactly when it is unpinned, older
  than the cutoff, and its blob was there to be unlinked.
\<close>

lemma gc_get:
  assumes "wf_db (db s)"
  shows "get (snd (gc s now)) c =
     (case get s c of
        None \<Rightarrow> None
      | Some r \<Rightarrow>
          if \<not> pinned r \<and> uploaded_at r < now - HOURS_24 \<and> fs s (local_path r) \<noteq> None
          then None else Some r)"
proof -
  have d: "distinct (map cid (db s))" using assms by (simp add: wf_db_def)
  show ?thesis
    by (simp add: get_def gc_db [OF assms] find_cid_filter [OF d] split: option.splits)
qed

lemmas demo_simps = demo_store_def demo_obj_def demo_now_def HOURS_24_def SECOND_def
  wf_db_def get_def gc_def select_eligible_def unlink_def

subsection \<open>Pinned records\<close>

text \<open>
  Claim C3. A pinned record survives every sweep, whatever its age and whatever the
  clock reads: after \<open>gc\<close> the record is still returned by \<open>get\<close>, unchanged, and the file
  at its \<open>local_path\<close> is what it was before. The table is assumed to satisfy its own
  constraints (\<open>cid\<close> primary key, \<open>local_path\<close> unique).
\<close>

theorem gc_pin_immunity:
  assumes "wf_db (db s)" and "get s c = Some r" and "pinned r"
  shows "get (snd (gc s now)) c = Some r \<and>
         fs (snd (gc s now)) (local_path r) = fs s (local_path r)"
proof
  show "get (snd (gc s now)) c = Some r"
    using assms by (simp add: gc_get)
next
  have r: "r \<in> set (db s)" using assms(2) by (simp add: get_SomeD)
  have "local_path r \<notin> snd ` set (select_eligible (db s) (now - HOURS_24))"
  proof
    assume "local_path r \<in> snd ` set (select_eligible (db s) (now - HOURS_24))"
    then obtain r' where "r' \<in> set (db s)" "\<not> pinned r'" "local_path r' = local_path r"
      by (auto simp: select_eligible_def)
    with wf_db_same_path [OF assms(1) r] assms(3) show False by blast
  qed
  then show "fs (snd (gc s now)) (local_path r) = fs s (local_path r)"
    by (simp add: gc_fs)
qed

text \<open>A pinned record uploaded at time 0, swept at \<open>demo_now\<close>.\<close>

theorem gc_pin_immunity_witness:
  "wf_db (db (demo_store [demo_obj ''Qma'' True 0] [''Qma''])) \<and>
   get (demo_store [demo_obj ''Qma'' True 0] [''Qma'']) ''Qma'' = Some (demo_obj ''Qma'' True 0) \<and>
   pinned (demo_obj ''Qma'' True 0) \<and>
   get (snd (gc (demo_store [demo_obj ''Qma'' True 0] [''Qma'']) demo_now)) ''Qma''
     = Some (demo_obj ''Qma'' True 0) \<and>
   fs (snd (gc (demo_store [demo_obj ''Qma'' True 0] [''Qma'']) demo_now))
      (local_path (demo_obj ''Qma'' True 0)) = Some ''hi''"
proof -
  let ?s = "demo_store [demo_obj ''Qma'' True 0] [''Qma'']"
  have 1: "wf_db (db ?s)" by (simp add: demo_simps)
  have 2: "get ?s ''Qma'' = Some (demo_obj ''Qma'' True 0)" by (simp add: demo_simps)
  have 3: "pinned (demo_obj ''Qma'' True 0)" by (simp add: demo_simps)
  have 4: "fs ?s (local_path (demo_obj ''Qma'' True 0)) = Some ''hi''" by (simp add: demo_simps)
  from gc_pin_immunity [OF 1 2 3, of demo_now] 1 2 3 4 show ?thesis by simp
qed

subsection \<open>The age threshold\<close>

lemma select_eligible_path:
  assumes "wf_db rows" and "r \<in> set rows"
  shows "local_path r \<in> snd ` set (select_eligible rows t) \<longleftrightarrow> \<not> pinned r \<and> uploaded_at r < t"
proof
  assume "local_path r \<in> snd ` set (select_eligible rows t)"
  then obtain r' where "r' \<in> set rows" "\<not> pinned r'" "uploaded_at r' < t"
      "local_path r' = local_path r"
    by (auto simp: select_eligible_def)
  with wf_db_same_path [OF assms] show "\<not> pinned r \<and> uploaded_at r < t" by blast
next
  assume "\<not> pinned r \<and> uploaded_at r < t"
  with assms(2) show "local_path r \<in> snd ` set (select_eligible rows t)"
    by (force simp: select_eligible_def)
qed

text \<open>
  The sweep seen from one record \<open>r\<close> of the index, with the cutoff \<open>now - 24 hours\<close>:
  the file at \<open>local_path r\<close> is unlinked exactly when \<open>r\<close> is unpinned and
  \<open>uploaded_at r\<close> is strictly earlier than the cutoff, and \<open>get\<close> stops returning \<open>r\<close>
  exactly when, in addition, \<open>unlink\<close> found that file.
\<close>

lemma gc_age_threshold:
  assumes "wf_db (db s)" and "get s c = Some r"
  shows "fs (snd (gc s now)) (local_path r) =
           (if \<not> pinned r \<and> uploaded_at r < now - HOURS_24 then None else fs s (local_path r)) \<and>
         get (snd (gc s now)) c =
           (if \<not> pinned r \<and> uploaded_at r < now - HOURS_24 \<and> fs s (local_path r) \<noteq> None
            then None else Some r) \<and>
         (\<not> pinned r \<and> uploaded_at r = now - HOURS_24 - SECOND \<and> fs s (local_path r) \<noteq> None
            \<longrightarrow> get (snd (gc s now)) c = None) \<and>
         (uploaded_at r = now - HOURS_24 + SECOND \<longrightarrow> get (snd (gc s now)) c = Some r)"
proof -
  have r: "r \<in> set (db s)" using assms(2) by (simp add: get_SomeD)
  have "fs (snd (gc s now)) (local_path r) =
      (if \<not> pinned r \<and> uploaded_at r < now - HOURS_24 then None else fs s (local_path r))"
    by (simp add: gc_fs select_eligible_path [OF assms(1) r])
  moreover have "get (snd (gc s now)) c =
      (if \<not> pinned r \<and> uploaded_at r < now - HOURS_24 \<and> fs s (local_path r) \<noteq> None
       then None else Some r)"
    using assms by (simp add: gc_get)
  ultimately show ?thesis by (simp add: SECOND_def)
qed

text \<open>
  An instance: two unpinned records with their blobs, one second on either side of the
  cutoff.
\<close>

lemma gc_age_threshold_instance:
  "wf_db (db (demo_store
      [demo_obj ''Qmb'' False (demo_now - HOURS_24 - SECOND),
       demo_obj ''Qmc'' False (demo_now - HOURS_24 + SECOND)] [''Qmb'', ''Qmc''])) \<and>
   get (demo_store
      [demo_obj ''Qmb'' False (demo_now - HOURS_24 - SECOND),
       demo_obj ''Qmc'' False (demo_now - HOURS_24 + SECOND)] [''Qmb'', ''Qmc'']) ''Qmb''
     = Some (demo_obj ''Qmb'' False (demo_now - HOURS_24 - SECOND)) \<and>
   get (demo_store
      [demo_obj ''Qmb'' False (demo_now - HOURS_24 - SECOND),
       demo_obj ''Qmc'' False (demo_now - HOURS_24 + SECOND)] [''Qmb'', ''Qmc'']) ''Qmc''
     = Some (demo_obj ''Qmc'' False (demo_now - HOURS_24 + SECOND)) \<and>
   get (snd (gc (demo_store
      [demo_obj ''Qmb'' False (demo_now - HOURS_24 - SECOND),
       demo_obj ''Qmc'' False (demo_now - HOURS_24 + SECOND)] [''Qmb'', ''Qmc'']) demo_now)) ''Qmb''
     = None \<and>
   fs (snd (gc (demo_store
      [demo_obj ''Qmb'' False (demo_now - HOURS_24 - SECOND),
       demo_obj ''Qmc'' False (demo_now - HOURS_24 + SECOND)] [''Qmb'', ''Qmc'']) demo_now))
      ''/h/.blackroad/ipfs-store/Qmb'' = None \<and>
   get (snd (gc (demo_store
      [demo_obj ''Qmb'' False (demo_now - HOURS_24 - SECOND),
       demo_obj ''Qmc'' False (demo_now - HOURS_24 + SECOND)] [''Qmb'', ''Qmc'']) demo_now)) ''Qmc''
     = Some (demo_obj ''Qmc'' False (demo_now - HOURS_24 + SECOND)) \<and>
   fs (snd (gc (demo_store
      [demo_obj ''Qmb'' False (demo_now - HOURS_24 - SECOND),
       demo_obj ''Qmc'' False (demo_now - HOURS_24 + SECOND)] [''Qmb'', ''Qmc'']) demo_now))
      ''/h/.blackroad/ipfs-store/Qmc'' = Some ''hi''"
proof -
  let ?b = "demo_obj ''Qmb'' False (demo_now - HOURS_24 - SECOND)"
  let ?c = "demo_obj ''Qmc'' False (demo_now - HOURS_24 + SECOND)"
  let ?s = "demo_store [?b, ?c] [''Qmb'', ''Qmc'']"
  have 1: "wf_db (db ?s)" by (simp add: demo_simps)
  have 2: "get ?s ''Qmb'' = Some ?b" by (simp add: demo_simps)
  have 3: "get ?s ''Qmc'' = Some ?c" by (simp add: demo_simps)
  have 4: "\<not> pinned ?b" "uploaded_at ?b = demo_now - HOURS_24 - SECOND"
    "local_path ?b = ''/h/.blackroad/ipfs-store/Qmb''" "fs ?s (local_path ?b) = Some ''hi''"
    by (simp_all add: demo_store_def demo_obj_def)
  have 5: "\<not> pinned ?c" "uploaded_at ?c = demo_now - HOURS_24 + SECOND"
    "local_path ?c = ''/h/.blackroad/ipfs-store/Qmc''" "fs ?s (local_path ?c) = Some ''hi''"
    by (simp_all add: demo_store_def demo_obj_def)
  from gc_age_threshold [OF 1 2, of demo_now] gc_age_threshold [OF 1 3, of demo_now]
    1 2 3 4 5
  show ?thesis by (simp add: SECOND_def)
qed

text \<open>
  On a store that satisfies referential integrity the boundary is as the specification
  has it: an unpinned record uploaded at \<open>now - 24 hours - 1 second\<close> is reclaimed with
  its blob, and a record uploaded at \<open>now - 24 hours + 1 second\<close> stays with its blob.
\<close>

lemma gc_age_boundary_store_ok:
  assumes "store_ok s" and "get s c = Some r"
  shows "(\<not> pinned r \<and> uploaded_at r = now - HOURS_24 - SECOND \<longrightarrow>
            get (snd (gc s now)) c = None \<and> fs (snd (gc s now)) (local_path r) = None) \<and>
         (uploaded_at r = now - HOURS_24 + SECOND \<longrightarrow>
            get (snd (gc s now)) c = Some r \<and>
            fs (snd (gc s now)) (local_path r) = fs s (local_path r))"
proof -
  have wf: "wf_db (db s)" using assms(1) by (simp add: store_ok_def)
  have "r \<in> set (db s)" using assms(2) by (simp add: get_SomeD)
  then have "fs s (local_path r) \<noteq> None"
    using assms(1) unfolding store_ok_def ref_integrity_def by blast
  with gc_age_threshold [OF wf assms(2), of now] show ?thesis
    by (simp add: SECOND_def)
qed

text \<open>
  Claim C4, the age threshold boundary: an unpinned record with
  \<open>uploaded_at = now - 24 hours - 1 second\<close> is reclaimed by the sweep. At a failing
  input: the index holds such a record and the file at its \<open>local_path\<close> is absent. The
  record is selected, \<open>unlink\<close> raises \<open>FileNotFoundError\<close>, the \<open>DELETE\<close> is
  skipped, and \<open>get\<close> still returns the record after the sweep.
\<close>

theorem gc_boundary_record_not_reclaimed:
  "get (demo_store [demo_obj ''Qmb'' False (demo_now - HOURS_24 - SECOND)] []) ''Qmb''
     = Some (demo_obj ''Qmb'' False (demo_now - HOURS_24 - SECOND)) \<and>
   \<not> pinned (demo_obj ''Qmb'' False (demo_now - HOURS_24 - SECOND)) \<and>
   uploaded_at (demo_obj ''Qmb'' False (demo_now - HOURS_24 - SECOND))
     = demo_now - HOURS_24 - SECOND \<and>
   fs (demo_store [demo_obj ''Qmb'' False (demo_now - HOURS_24 - SECOND)] [])
      (local_path (demo_obj ''Qmb'' False (demo_now - HOURS_24 - SECOND))) = None \<and>
   select_eligible (db (demo_store [demo_obj ''Qmb'' False (demo_now - HOURS_24 - SECOND)] []))
      (demo_now - HOURS_24) = [(''Qmb'', ''/h/.blackroad/ipfs-store/Qmb'')] \<and>
   get (snd (gc (demo_store [demo_obj ''Qmb'' False (demo_now - HOURS_24 - SECOND)] [])
          demo_now)) ''Qmb''
     = Some (demo_obj ''Qmb'' False (demo_now - HOURS_24 - SECOND)) \<and>
   out (snd (gc (demo_store [demo_obj ''Qmb'' False (demo_now - HOURS_24 - SECOND)] [])
          demo_now))
     = [Error_deleting ''Qmb'' (FileNotFoundError ''/h/.blackroad/ipfs-store/Qmb'')]"
  by (simp add: demo_simps)

subsection \<open>Deletions that fail\<close>

text \<open>
  Claim C1 at a failing input: one eligible record whose blob is absent. \<open>unlink\<close>
  raises, the message is printed and the row stays, so nothing was reclaimed; \<open>gc\<close>
  returns \<open>len(rows) = 1\<close>.
\<close>

theorem gc_count_includes_failures:
  "fst (gc (demo_store [demo_obj ''Qma'' False 0] []) demo_now) = 1 \<and>
   db (snd (gc (demo_store [demo_obj ''Qma'' False 0] []) demo_now)) = [demo_obj ''Qma'' False 0] \<and>
   out (snd (gc (demo_store [demo_obj ''Qma'' False 0] []) demo_now))
     = [Error_deleting ''Qma'' (FileNotFoundError ''/h/.blackroad/ipfs-store/Qma'')]"
  by (simp add: demo_simps)

text \<open>
  In general the value returned is the number of rows selected, whatever happens to
  them in the loop, and a selected record whose blob is absent stays in the index.
\<close>

lemma gc_returns_selected_count:
  "fst (gc s now) =
     int (length (filter (\<lambda>r. \<not> pinned r \<and> uploaded_at r < now - HOURS_24) (db s)))"
  by (simp add: gc_def Let_def select_eligible_def)

lemma gc_keeps_record_without_blob:
  assumes "wf_db (db s)" and "get s c = Some r" and "fs s (local_path r) = None"
  shows "get (snd (gc s now)) c = Some r"
  using assms by (simp add: gc_get)

text \<open>
  Claim C2 at a failing input: two eligible records, the blob of the first absent. The
  sweep goes on to the second record and removes it with its blob, but the index record
  of the first is still there afterwards: \<open>FileNotFoundError\<close> is not tolerated, it
  skips the \<open>DELETE\<close>.
\<close>

theorem gc_missing_blob_keeps_record:
  "fs (demo_store [demo_obj ''Qma'' False 0, demo_obj ''Qmb'' False 0] [''Qmb''])
      (local_path (demo_obj ''Qma'' False 0)) = None \<and>
   get (snd (gc (demo_store [demo_obj ''Qma'' False 0, demo_obj ''Qmb'' False 0] [''Qmb''])
          demo_now)) ''Qma'' = Some (demo_obj ''Qma'' False 0) \<and>
   get (snd (gc (demo_store [demo_obj ''Qma'' False 0, demo_obj ''Qmb'' False 0] [''Qmb''])
          demo_now)) ''Qmb'' = None \<and>
   fs (snd (gc (demo_store [demo_obj ''Qma'' False 0, demo_obj ''Qmb'' False 0] [''Qmb''])
          demo_now)) (local_path (demo_obj ''Qmb'' False 0)) = None"
  by (simp add: demo_simps)


section \<open>Referential integrity\<close>

lemma in_store_path_join: "in_store s (path_join (STORE_DIR s) c)"
  by (simp add: in_store_def path_join_def)

lemma path_join_inject: "path_join d c = path_join d c' \<longleftrightarrow> c = c'"
  by (simp add: path_join_def)

lemma in_store_home_dir: "home_dir s' = home_dir s \<Longrightarrow> in_store s' = in_store s"
  by (simp add: in_store_def STORE_DIR_def fun_eq_iff)

lemma map_cid_set_pinned:
  "map cid (map (\<lambda>r. if cid r = c then r\<lparr>pinned := b\<rparr> else r) xs) = map cid xs"
  by (induction xs) auto

lemma map_local_path_set_pinned:
  "map local_path (map (\<lambda>r. if cid r = c then r\<lparr>pinned := b\<rparr> else r) xs) = map local_path xs"
  by (induction xs) auto

lemma store_ok_set_pinned:
  assumes "store_ok s"
  shows "store_ok (s\<lparr>db := map (\<lambda>r. if cid r = c then r\<lparr>pinned := b\<rparr> else r) (db s)\<rparr>)"
proof -
  let ?f = "\<lambda>r. if cid r = c then r\<lparr>pinned := b\<rparr> else r"
  let ?s = "s\<lparr>db := map ?f (db s)\<rparr>"
  have f: "cid (?f r) = cid r" "local_path (?f r) = local_path r" for r
    by simp_all
  have wf: "wf_db (db ?s)"
    using assms
    by (simp del: map_map add: store_ok_def wf_db_def map_cid_set_pinned map_local_path_set_pinned)
  have lay: "\<forall>r \<in> set (db ?s). local_path r = path_join (STORE_DIR ?s) (cid r)"
    using assms by (auto simp: store_ok_def STORE_DIR_def)
  have r1: "\<forall>r \<in> set (db ?s). fs ?s (local_path r) \<noteq> None"
    using assms by (auto simp: store_ok_def ref_integrity_def)
  have r2: "\<exists>r \<in> set (db ?s). local_path r = p" if "in_store ?s p" "fs ?s p \<noteq> None" for p
  proof -
    from that assms obtain r where "r \<in> set (db s)" "local_path r = p"
      by (auto simp: store_ok_def ref_integrity_def in_store_def STORE_DIR_def)
    then have "?f r \<in> set (db ?s)" "local_path (?f r) = p" by auto
    then show ?thesis by blast
  qed
  from wf lay r1 r2 show ?thesis
    unfolding store_ok_def ref_integrity_def by blast
qed

lemma store_ok_pin: "store_ok s \<Longrightarrow> store_ok (snd (pin s c))"
  by (auto simp: pin_def store_ok_set_pinned split: option.splits)

lemma store_ok_unpin: "store_ok s \<Longrightarrow> store_ok (snd (unpin s c))"
  by (auto simp: unpin_def store_ok_set_pinned split: option.splits)

lemma store_ok_gc:
  assumes "store_ok s"
  shows "store_ok (snd (gc s now))"
proof -
  let ?s = "snd (gc s now)"
  let ?E = "\<lambda>r. \<not> pinned r \<and> uploaded_at r < now - HOURS_24"
  have wf0: "wf_db (db s)" using assms by (simp add: store_ok_def)
  have present: "fs s (local_path r) \<noteq> None" if "r \<in> set (db s)" for r
    using assms that unfolding store_ok_def ref_integrity_def by blast
  have db: "db ?s = filter (\<lambda>r. \<not> ?E r) (db s)"
    using present by (simp add: gc_db [OF wf0] cong: filter_cong)
  have fs: "fs ?s (local_path r) = (if ?E r then None else fs s (local_path r))"
    if "r \<in> set (db s)" for r
    by (simp add: gc_fs select_eligible_path [OF wf0 that])
  have wf: "wf_db (db ?s)"
    using wf0 by (simp add: db wf_db_def distinct_map_filter)
  have lay: "\<forall>r \<in> set (db ?s). local_path r = path_join (STORE_DIR ?s) (cid r)"
    using assms by (simp add: db store_ok_def STORE_DIR_def gc_home_dir)
  have r1: "\<forall>r \<in> set (db ?s). fs ?s (local_path r) \<noteq> None"
    using present by (simp add: db fs)
  have r2: "\<exists>r \<in> set (db ?s). local_path r = p" if "in_store ?s p" "fs ?s p \<noteq> None" for p
  proof -
    have "in_store s p" using that(1) in_store_home_dir [OF gc_home_dir] by simp
    moreover have "fs s p \<noteq> None" using that(2) by (simp add: gc_fs split: if_splits)
    ultimately obtain r where r: "r \<in> set (db s)" "local_path r = p"
      using assms by (auto simp: store_ok_def ref_integrity_def)
    with that(2) fs [OF r(1)] have "\<not> ?E r" by (auto split: if_splits)
    with r show ?thesis by (auto simp: db)
  qed
  from wf lay r1 r2 show ?thesis
    unfolding store_ok_def ref_integrity_def by blast
qed


lemma store_ok_put:
  assumes "store_ok s" and "cid obj = c" and "local_path obj = path_join (STORE_DIR s) c"
  shows "store_ok (store_metadata (s\<lparr>fs := (fs s)(path_join (STORE_DIR s) c \<mapsto> d)\<rparr>) obj)"
proof -
  let ?lp = "path_join (STORE_DIR s) c"
  let ?keep = "filter (\<lambda>r. cid r \<noteq> c \<and> local_path r \<noteq> ?lp) (db s)"
  let ?s = "store_metadata (s\<lparr>fs := (fs s)(?lp \<mapsto> d)\<rparr>) obj"
  have db: "db ?s = ?keep @ [obj]" and fs: "fs ?s = (fs s)(?lp \<mapsto> d)"
    and home: "home_dir ?s = home_dir s"
    using assms(2,3) by (simp_all add: store_metadata_def)
  have sd: "STORE_DIR ?s = STORE_DIR s" using home by (simp add: STORE_DIR_def)
  have wf0: "wf_db (db s)"
    and lay0: "\<And>r. r \<in> set (db s) \<Longrightarrow> local_path r = path_join (STORE_DIR s) (cid r)"
    and present: "\<And>r. r \<in> set (db s) \<Longrightarrow> fs s (local_path r) \<noteq> None"
    and owned: "\<And>p. in_store s p \<Longrightarrow> fs s p \<noteq> None \<Longrightarrow> \<exists>r \<in> set (db s). local_path r = p"
    using assms(1) unfolding store_ok_def ref_integrity_def by blast+
  have wf: "wf_db (db ?s)"
    using wf0 assms(2,3) by (auto simp: db wf_db_def distinct_map_filter)
  have lay: "\<forall>r \<in> set (db ?s). local_path r = path_join (STORE_DIR ?s) (cid r)"
    using lay0 assms(2,3) by (auto simp: db sd)
  have r1: "\<forall>r \<in> set (db ?s). fs ?s (local_path r) \<noteq> None"
    using present assms(3) by (auto simp: db fs)
  have r2: "\<exists>r \<in> set (db ?s). local_path r = p" if "in_store ?s p" "fs ?s p \<noteq> None" for p
  proof (cases "p = ?lp")
    case True
    then show ?thesis using assms(3) by (simp add: db)
  next
    case False
    have "in_store s p" using that(1) in_store_home_dir [OF home] by simp
    moreover have "fs s p \<noteq> None" using that(2) False by (simp add: fs)
    ultimately obtain r where r: "r \<in> set (db s)" "local_path r = p"
      using owned by blast
    with lay0 [OF r(1)] False have "cid r \<noteq> c" by auto
    with r False show ?thesis by (auto simp: db)
  qed
  from wf lay r1 r2 show ?thesis
    unfolding store_ok_def ref_integrity_def by blast
qed

lemma store_ok_add_file:
  assumes "store_ok s"
  shows "store_ok (snd (add_file h s now path))"
proof (cases "fs s path")
  case None
  then show ?thesis using assms by (simp add: add_file_def)
next
  case (Some data)
  show ?thesis
  proof (cases "path = path_join (STORE_DIR s) (compute_cid h data)")
    case True
    then show ?thesis using assms Some by (simp add: add_file_def)
  next
    case False
    then show ?thesis
      using Some by (simp add: add_file_def Let_def store_ok_put [OF assms])
  qed
qed

lemma store_ok_add_json:
  assumes "store_ok s"
  shows "store_ok (snd (add_json h s now json nm))"
proof (cases json)
  case None
  then show ?thesis using assms by (simp add: add_json_def)
next
  case (Some json_bytes)
  then show ?thesis
    by (simp add: add_json_def Let_def store_ok_put [OF assms])
qed

lemma store_ok_export_car:
  assumes "store_ok s" and "\<not> in_store s output_path"
  shows "store_ok (export_car d s cids output_path)"
proof -
  let ?s = "export_car d s cids output_path"
  have db: "db ?s = db s" and fs: "fs ?s = (fs s)(output_path \<mapsto> d (export_bundle s cids))"
    and home: "home_dir ?s = home_dir s"
    by (simp_all add: export_car_def)
  have sd: "STORE_DIR ?s = STORE_DIR s" using home by (simp add: STORE_DIR_def)
  have ins: "in_store ?s = in_store s" by (rule in_store_home_dir [OF home])
  have wf0: "wf_db (db s)"
    and lay0: "\<And>r. r \<in> set (db s) \<Longrightarrow> local_path r = path_join (STORE_DIR s) (cid r)"
    and present: "\<And>r. r \<in> set (db s) \<Longrightarrow> fs s (local_path r) \<noteq> None"
    and owned: "\<And>p. in_store s p \<Longrightarrow> fs s p \<noteq> None \<Longrightarrow> \<exists>r \<in> set (db s). local_path r = p"
    using assms(1) unfolding store_ok_def ref_integrity_def by blast+
  have r1: "\<forall>r \<in> set (db ?s). fs ?s (local_path r) \<noteq> None"
    using present by (auto simp: db fs)
  have r2: "\<exists>r \<in> set (db ?s). local_path r = p" if "in_store ?s p" "fs ?s p \<noteq> None" for p
  proof -
    have "in_store s p" using that(1) ins by simp
    moreover from this assms(2) have "p \<noteq> output_path" by auto
    with that(2) have "fs s p \<noteq> None" by (simp add: fs)
    ultimately show ?thesis using owned by (simp add: db)
  qed
  from wf0 lay0 r1 r2 show ?thesis
    unfolding store_ok_def ref_integrity_def by (simp add: db sd)
qed

lemma add_file_home_dir: "home_dir (snd (add_file h s now path)) = home_dir s"
  by (simp add: add_file_def store_metadata_def Let_def split: option.splits)

lemma add_json_home_dir: "home_dir (snd (add_json h s now json nm)) = home_dir s"
  by (simp add: add_json_def store_metadata_def Let_def split: option.splits)

lemma pin_home_dir: "home_dir (snd (pin s c)) = home_dir s"
  by (simp add: pin_def split: option.splits)

lemma unpin_home_dir: "home_dir (snd (unpin s c)) = home_dir s"
  by (simp add: unpin_def split: option.splits)

lemma exec_home_dir: "home_dir (exec h d s call) = home_dir s"
  by (cases call)
    (simp_all add: add_file_home_dir add_json_home_dir pin_home_dir unpin_home_dir gc_home_dir
       export_car_def)

lemma exports_outside_home_dir:
  assumes "home_dir s' = home_dir s"
  shows "exports_outside s' calls = exports_outside s calls"
proof (induction calls)
  case Nil
  show ?case by simp
next
  case (Cons call calls)
  then show ?case
    by (cases call) (simp_all add: in_store_home_dir [OF assms])
qed


lemma exports_outside_Cons:
  "exports_outside s (call # calls) \<longleftrightarrow> exports_outside s [call] \<and> exports_outside s calls"
  by (cases call) simp_all

lemma store_ok_exec:
  assumes "store_ok s" and "exports_outside s [call]"
  shows "store_ok (exec h d s call)"
proof (cases call)
  case (Export_car cids output_path)
  with assms show ?thesis by (simp add: store_ok_export_car)
qed (simp_all add: assms(1) store_ok_add_file store_ok_add_json store_ok_pin store_ok_unpin
      store_ok_gc)

lemma store_ok_run:
  "store_ok s \<Longrightarrow> exports_outside s calls \<Longrightarrow> store_ok (run h d s calls)"
proof (induction calls arbitrary: s)
  case Nil
  then show ?case by (simp add: run_def)
next
  case (Cons call calls)
  from Cons.prems have 1: "exports_outside s [call]" and 2: "exports_outside s calls"
    using exports_outside_Cons [of s call calls] by blast+
  have "store_ok (exec h d s call)" using Cons.prems(1) 1 by (rule store_ok_exec)
  moreover have "exports_outside (exec h d s call) calls"
    using 2 by (simp add: exports_outside_home_dir [OF exec_home_dir])
  ultimately have "store_ok (run h d (exec h d s call) calls)" by (rule Cons.IH)
  then show ?case by (simp add: run_def)
qed

lemma store_ok_empty:
  "db s = [] \<Longrightarrow> (\<And>p. in_store s p \<Longrightarrow> fs s p = None) \<Longrightarrow> store_ok s"
  by (auto simp: store_ok_def wf_db_def ref_integrity_def)

text \<open>
  Claim C5. Referential integrity is an invariant of the store: starting from a store
  that satisfies it (an empty index over an empty store directory does), it holds after
  every sequence of \<open>add_file\<close>, \<open>add_json\<close>, \<open>pin\<close>, \<open>unpin\<close>, \<open>gc\<close> and
  \<open>export_car\<close> calls whose export files lie outside the store directory: a record is
  in the index if and only if its blob is in the store. In particular, after a further
  \<open>gc\<close> sweep the file at the \<open>local_path\<close> of every remaining record can be read.
\<close>

theorem referential_integrity_invariant:
  assumes "store_ok s" and "exports_outside s calls"
  shows "ref_integrity (run h d s calls) \<and>
         (\<forall>r \<in> set (db (snd (gc (run h d s calls) now))).
            fs (snd (gc (run h d s calls) now)) (local_path r) \<noteq> None)"
proof -
  have ok: "store_ok (run h d s calls)" using assms by (rule store_ok_run)
  then have "store_ok (snd (gc (run h d s calls) now))" by (rule store_ok_gc)
  with ok show ?thesis unfolding store_ok_def ref_integrity_def by blast
qed

text \<open>
  A fresh store with one source file: the file is added, a bundle is exported and the
  sweep runs a long time later (the hash is the identity here, so the identifier is
  \<open>Qmhi\<close>).
\<close>

theorem referential_integrity_invariant_witness:
  "store_ok demo_fresh \<and>
   exports_outside demo_fresh
     [Add_file 0 ''/tmp/a.txt'', Export_car [''Qmhi''] ''/tmp/out.car'', Gc demo_now] \<and>
   ref_integrity (run (\<lambda>b. b) (\<lambda>b. [])  demo_fresh
     [Add_file 0 ''/tmp/a.txt'', Export_car [''Qmhi''] ''/tmp/out.car'', Gc demo_now]) \<and>
   db (run (\<lambda>b. b) (\<lambda>b. []) demo_fresh
     [Add_file 0 ''/tmp/a.txt'', Export_car [''Qmhi''] ''/tmp/out.car'', Gc demo_now]) = []"
proof -
  let ?calls = "[Add_file 0 ''/tmp/a.txt'', Export_car [''Qmhi''] ''/tmp/out.car'', Gc demo_now]"
  have 1: "store_ok demo_fresh"
    by (rule store_ok_empty)
      (auto simp: demo_fresh_def in_store_def STORE_DIR_def split: if_splits)
  have 2: "exports_outside demo_fresh ?calls"
    by (simp add: demo_fresh_def in_store_def STORE_DIR_def)
  have 3: "db (run (\<lambda>b. b) (\<lambda>b. []) demo_fresh ?calls) = []"
    by (simp add: run_def demo_fresh_def add_file_def compute_cid_def path_join_def STORE_DIR_def
        store_metadata_def export_car_def Let_def determine_mime_type_def
        gc_def select_eligible_def unlink_def demo_now_def HOURS_24_def)
  from referential_integrity_invariant [OF 1 2, of "\<lambda>b. b" "\<lambda>b. []" 0] 1 2 3
  show ?thesis by simp
qed

section \<open>Adding content\<close>

text \<open>What a successful \<open>add_file\<close> returns and leaves behind.\<close>

lemma add_file_Inr:
  assumes "fst (add_file h s now path) = Inr obj" and "fs s path = Some b"
  shows "path \<noteq> path_join (STORE_DIR s) (compute_cid h b)"
    and "obj = \<lparr>cid = compute_cid h b, name = path_name path, size_bytes = int (length b),
                 mime_type = determine_mime_type path, pinned = False, uploaded_at = now,
                 local_path = path_join (STORE_DIR s) (compute_cid h b)\<rparr>"
    and "snd (add_file h s now path) =
           store_metadata (s\<lparr>fs := (fs s)(path_join (STORE_DIR s) (compute_cid h b) \<mapsto> b)\<rparr>) obj"
  using assms by (auto simp: add_file_def Let_def split: if_splits)

subsection \<open>A missing source file\<close>

text \<open>
  Claim C9. When no file exists at the source path, \<open>add_file\<close> raises
  \<open>FileNotFoundError\<close> and the state it leaves is the state it found: no file of the
  file system and no row of the index has changed.
\<close>

theorem add_file_input_not_found:
  assumes "fs s path = None"
  shows "add_file h s now path = (Inl (FileNotFoundError path), s)"
  using assms by (simp add: add_file_def)

text \<open>The fresh store has no file \<open>/tmp/missing\<close>.\<close>

theorem add_file_input_not_found_witness:
  "fs demo_fresh ''/tmp/missing'' = None \<and>
   add_file (\<lambda>b. b) demo_fresh 0 ''/tmp/missing''
     = (Inl (FileNotFoundError ''/tmp/missing''), demo_fresh)"
proof -
  have 1: "fs demo_fresh ''/tmp/missing'' = None" by (simp add: demo_fresh_def)
  from add_file_input_not_found [OF 1, of "\<lambda>b. b" 0] 1 show ?thesis by simp
qed

subsection \<open>The identifier depends on the bytes only\<close>

text \<open>
  Claim C6. The identifier is \<open>compute_cid\<close> of the bytes, a function of the bytes
  alone: two \<open>add_file\<close> calls that read the same bytes, in any two states, at any
  two clock readings and from any two paths, and an \<open>add_json\<close> call that serialises
  to the same bytes, all produce the same \<open>cid\<close>.
\<close>

theorem digest_deterministic:
  assumes "fs s p = Some b" and "fst (add_file h s t p) = Inr obj"
    and "fs s' p' = Some b" and "fst (add_file h s' t' p') = Inr obj'"
    and "fst (add_json h s'' t'' (Some b) nm) = Inr obj''"
  shows "cid obj = compute_cid h b \<and> cid obj' = cid obj \<and> cid obj'' = cid obj"
proof -
  have "cid obj = compute_cid h b" using add_file_Inr(2) [OF assms(2,1)] by simp
  moreover have "cid obj' = compute_cid h b" using add_file_Inr(2) [OF assms(4,3)] by simp
  moreover have "cid obj'' = compute_cid h b"
    using assms(5) by (auto simp: add_json_def Let_def)
  ultimately show ?thesis by simp
qed

text \<open>
  The bytes \<open>hi\<close> read from a source file, read from a file in the store directory
  of another store at another time, and given as serialised JSON.
\<close>

theorem digest_deterministic_witness:
  "fs demo_fresh ''/tmp/a.txt'' = Some ''hi'' \<and>
   fst (add_file (\<lambda>b. b) demo_fresh 0 ''/tmp/a.txt'') =
     Inr \<lparr>cid = ''Qmhi'', name = ''a.txt'', size_bytes = 2, mime_type = ''text/plain'',
          pinned = False, uploaded_at = 0, local_path = ''/h/.blackroad/ipfs-store/Qmhi''\<rparr> \<and>
   fs (demo_store [] [''x'']) ''/h/.blackroad/ipfs-store/x'' = Some ''hi'' \<and>
   fst (add_file (\<lambda>b. b) (demo_store [] [''x'']) 7 ''/h/.blackroad/ipfs-store/x'') =
     Inr \<lparr>cid = ''Qmhi'', name = ''x'', size_bytes = 2, mime_type = ''application/octet-stream'',
          pinned = False, uploaded_at = 7, local_path = ''/h/.blackroad/ipfs-store/Qmhi''\<rparr> \<and>
   fst (add_json (\<lambda>b. b) demo_fresh 9 (Some ''hi'') ''data.json'') =
     Inr \<lparr>cid = ''Qmhi'', name = ''data.json'', size_bytes = 2, mime_type = ''application/json'',
          pinned = False, uploaded_at = 9, local_path = ''/h/.blackroad/ipfs-store/Qmhi''\<rparr> \<and>
   compute_cid (\<lambda>b. b) ''hi'' = ''Qmhi''"
proof -
  let ?o1 = "\<lparr>cid = ''Qmhi'', name = ''a.txt'', size_bytes = 2, mime_type = ''text/plain'',
          pinned = False, uploaded_at = 0, local_path = ''/h/.blackroad/ipfs-store/Qmhi''\<rparr>"
  let ?o2 = "\<lparr>cid = ''Qmhi'', name = ''x'', size_bytes = 2, mime_type = ''application/octet-stream'',
          pinned = False, uploaded_at = 7, local_path = ''/h/.blackroad/ipfs-store/Qmhi''\<rparr>"
  let ?o3 = "\<lparr>cid = ''Qmhi'', name = ''data.json'', size_bytes = 2, mime_type = ''application/json'',
          pinned = False, uploaded_at = 9, local_path = ''/h/.blackroad/ipfs-store/Qmhi''\<rparr>"
  have 1: "fs demo_fresh ''/tmp/a.txt'' = Some ''hi''" by (simp add: demo_fresh_def)
  have 2: "fst (add_file (\<lambda>b. b) demo_fresh 0 ''/tmp/a.txt'') = Inr ?o1"
    by (simp add: demo_fresh_def add_file_def compute_cid_def path_join_def STORE_DIR_def
        Let_def determine_mime_type_def path_suffix_def path_name_def)
  have 3: "fs (demo_store [] [''x'']) ''/h/.blackroad/ipfs-store/x'' = Some ''hi''"
    by (simp add: demo_store_def)
  have 4: "fst (add_file (\<lambda>b. b) (demo_store [] [''x'']) 7 ''/h/.blackroad/ipfs-store/x'') = Inr ?o2"
    by (simp add: demo_store_def add_file_def compute_cid_def path_join_def STORE_DIR_def
        Let_def determine_mime_type_def path_suffix_def path_name_def)
  have 5: "fst (add_json (\<lambda>b. b) demo_fresh 9 (Some ''hi'') ''data.json'') = Inr ?o3"
    by (simp add: demo_fresh_def add_json_def compute_cid_def path_join_def STORE_DIR_def Let_def)
  from digest_deterministic [OF 1 2 3 4 5] 1 2 3 4 5 show ?thesis by simp
qed

subsection \<open>Adding the same bytes twice\<close>

lemma find_append_None: "find P xs = None \<Longrightarrow> find P (xs @ ys) = find P ys"
  by (induction xs) (auto split: if_splits)

text \<open>
  Claim C7. When two successive \<open>add_file\<close> calls read the same bytes, the second
  returns the same \<open>cid\<close> and the same \<open>local_path\<close>; afterwards the index has exactly
  one row with that \<open>cid\<close> (and one with that \<open>local_path\<close>), it has as many rows as
  after the first call, and the files are exactly those left by the first call, so no
  second blob was written. \<open>get\<close> returns the object of the second call, whose
  \<open>name\<close>, \<open>mime_type\<close> and \<open>uploaded_at\<close> are those of the second call.
\<close>

theorem add_file_twice:
  assumes "fs s p1 = Some b" and "add_file h s t1 p1 = (Inr o1, s1)"
    and "fs s1 p2 = Some b" and "add_file h s1 t2 p2 = (Inr o2, s2)"
  shows "cid o2 = cid o1 \<and> local_path o2 = local_path o1 \<and>
         filter (\<lambda>r. cid r = cid o1) (db s2) = [o2] \<and>
         filter (\<lambda>r. local_path r = local_path o1) (db s2) = [o2] \<and>
         get s2 (cid o1) = Some o2 \<and>
         length (db s2) = length (db s1) \<and>
         fs s2 = fs s1 \<and>
         fs s2 (local_path o1) = Some b \<and>
         name o2 = path_name p2 \<and> mime_type o2 = determine_mime_type p2 \<and> uploaded_at o2 = t2 \<and>
         size_bytes o2 = size_bytes o1"
proof -
  let ?c = "compute_cid h b"
  let ?lp = "path_join (STORE_DIR s) ?c"
  let ?keep = "filter (\<lambda>r. cid r \<noteq> ?c \<and> local_path r \<noteq> ?lp) (db s)"
  from assms(2) have f1: "fst (add_file h s t1 p1) = Inr o1" and g1: "snd (add_file h s t1 p1) = s1"
    by simp_all
  from assms(4) have f2: "fst (add_file h s1 t2 p2) = Inr o2" and g2: "snd (add_file h s1 t2 p2) = s2"
    by simp_all
  note A = add_file_Inr [OF f1 assms(1)]
  have o1: "cid o1 = ?c" "local_path o1 = ?lp" "size_bytes o1 = int (length b)"
    using A(2) by simp_all
  have s1: "db s1 = ?keep @ [o1]" "fs s1 = (fs s)(?lp \<mapsto> b)" "home_dir s1 = home_dir s"
    using A(3) o1 by (simp_all add: g1 store_metadata_def)
  have sd: "STORE_DIR s1 = STORE_DIR s" using s1(3) by (simp add: STORE_DIR_def)
  note B = add_file_Inr [OF f2 assms(3)]
  have o2: "cid o2 = ?c" "local_path o2 = ?lp" "size_bytes o2 = int (length b)"
      "name o2 = path_name p2" "mime_type o2 = determine_mime_type p2" "uploaded_at o2 = t2"
    using B(2) by (simp_all add: sd)
  have keep: "filter (\<lambda>r. cid r \<noteq> ?c \<and> local_path r \<noteq> ?lp) (db s1) = ?keep"
    by (simp add: s1(1) o1)
  have s2: "db s2 = ?keep @ [o2]" "fs s2 = (fs s1)(?lp \<mapsto> b)"
    using B(3) o2 keep by (simp_all add: g2 [symmetric] store_metadata_def sd)
  have fs: "fs s2 = fs s1" by (simp add: s2(2) s1(2))
  have n1: "filter (\<lambda>r. cid r = ?c) ?keep = []" and n2: "filter (\<lambda>r. local_path r = ?lp) ?keep = []"
    by (auto simp: filter_empty_conv)
  have "find (\<lambda>r. cid r = ?c) ?keep = None"
    by (auto simp: find_None_iff)
  then have g: "get s2 ?c = Some o2"
    by (simp add: get_def s2(1) o2 find_append_None)
  show ?thesis
    using o1 o2 fs g n1 n2 by (simp add: s2(1) s1(1)) (simp add: s1(2))
qed

text \<open>The same two bytes added from \<open>/tmp/a.txt\<close> at time 0 and from \<open>/tmp/b.md\<close> at time 5.\<close>

theorem add_file_twice_witness:
  "fs demo_fresh ''/tmp/a.txt'' = Some ''hi'' \<and>
   fst (add_file (\<lambda>b. b) demo_fresh 0 ''/tmp/a.txt'') =
     Inr \<lparr>cid = ''Qmhi'', name = ''a.txt'', size_bytes = 2, mime_type = ''text/plain'',
          pinned = False, uploaded_at = 0, local_path = ''/h/.blackroad/ipfs-store/Qmhi''\<rparr> \<and>
   fs (snd (add_file (\<lambda>b. b) demo_fresh 0 ''/tmp/a.txt'')) ''/tmp/b.md'' = Some ''hi'' \<and>
   fst (add_file (\<lambda>b. b) (snd (add_file (\<lambda>b. b) demo_fresh 0 ''/tmp/a.txt'')) 5 ''/tmp/b.md'') =
     Inr \<lparr>cid = ''Qmhi'', name = ''b.md'', size_bytes = 2, mime_type = ''text/markdown'',
          pinned = False, uploaded_at = 5, local_path = ''/h/.blackroad/ipfs-store/Qmhi''\<rparr> \<and>
   db (snd (add_file (\<lambda>b. b) (snd (add_file (\<lambda>b. b) demo_fresh 0 ''/tmp/a.txt'')) 5 ''/tmp/b.md'')) =
     [\<lparr>cid = ''Qmhi'', name = ''b.md'', size_bytes = 2, mime_type = ''text/markdown'',
       pinned = False, uploaded_at = 5, local_path = ''/h/.blackroad/ipfs-store/Qmhi''\<rparr>] \<and>
   get (snd (add_file (\<lambda>b. b) (snd (add_file (\<lambda>b. b) demo_fresh 0 ''/tmp/a.txt'')) 5 ''/tmp/b.md''))
       ''Qmhi'' =
     Some \<lparr>cid = ''Qmhi'', name = ''b.md'', size_bytes = 2, mime_type = ''text/markdown'',
       pinned = False, uploaded_at = 5, local_path = ''/h/.blackroad/ipfs-store/Qmhi''\<rparr> \<and>
   fs (snd (add_file (\<lambda>b. b) (snd (add_file (\<lambda>b. b) demo_fresh 0 ''/tmp/a.txt'')) 5 ''/tmp/b.md'')) =
     fs (snd (add_file (\<lambda>b. b) demo_fresh 0 ''/tmp/a.txt''))"
proof -
  let ?o1 = "\<lparr>cid = ''Qmhi'', name = ''a.txt'', size_bytes = 2, mime_type = ''text/plain'',
          pinned = False, uploaded_at = 0, local_path = ''/h/.blackroad/ipfs-store/Qmhi''\<rparr>"
  let ?o2 = "\<lparr>cid = ''Qmhi'', name = ''b.md'', size_bytes = 2, mime_type = ''text/markdown'',
          pinned = False, uploaded_at = 5, local_path = ''/h/.blackroad/ipfs-store/Qmhi''\<rparr>"
  let ?s1 = "snd (add_file (\<lambda>b. b) demo_fresh 0 ''/tmp/a.txt'')"
  let ?s2 = "snd (add_file (\<lambda>b. b) ?s1 5 ''/tmp/b.md'')"
  have 1: "fs demo_fresh ''/tmp/a.txt'' = Some ''hi''" by (simp add: demo_fresh_def)
  have f1: "fst (add_file (\<lambda>b. b) demo_fresh 0 ''/tmp/a.txt'') = Inr ?o1"
    by (simp add: demo_fresh_def add_file_def compute_cid_def path_join_def STORE_DIR_def
        Let_def determine_mime_type_def path_suffix_def path_name_def)
  then have 2: "add_file (\<lambda>b. b) demo_fresh 0 ''/tmp/a.txt'' = (Inr ?o1, ?s1)"
    by (simp add: prod_eq_iff)
  have s1: "?s1 = \<lparr>home_dir = ''/h'',
      fs = [''/tmp/a.txt'' \<mapsto> ''hi'', ''/tmp/b.md'' \<mapsto> ''hi'',
            ''/h/.blackroad/ipfs-store/Qmhi'' \<mapsto> ''hi''],
      db = [?o1], out = []\<rparr>"
    by (simp add: demo_fresh_def add_file_def compute_cid_def path_join_def STORE_DIR_def
        Let_def determine_mime_type_def path_suffix_def path_name_def store_metadata_def)
  have 3: "fs ?s1 ''/tmp/b.md'' = Some ''hi''" by (simp add: s1)
  have f2: "fst (add_file (\<lambda>b. b) ?s1 5 ''/tmp/b.md'') = Inr ?o2"
    unfolding s1
    by (simp add: add_file_def compute_cid_def path_join_def STORE_DIR_def
        Let_def determine_mime_type_def path_suffix_def path_name_def)
  then have 4: "add_file (\<lambda>b. b) ?s1 5 ''/tmp/b.md'' = (Inr ?o2, ?s2)"
    by (simp add: prod_eq_iff)
  have 5: "db ?s2 = [?o2]"
    unfolding s1
    by (simp add: add_file_def compute_cid_def path_join_def STORE_DIR_def
        Let_def determine_mime_type_def path_suffix_def path_name_def store_metadata_def)
  from add_file_twice [OF 1 2 3 4] 1 f1 3 f2 5 show ?thesis by simp
qed

section \<open>Export\<close>

lemma export_loop_map_filter: "export_loop s cids acc = acc @ List.map_filter (get s) cids"
  by (induction cids arbitrary: acc) (auto simp: map_filter_simps split: option.splits)

text \<open>
  Claim C8. The bundle has \<open>version\<close> 1 and its \<open>objects\<close> are the records that \<open>get\<close>
  finds for the identifiers of the list, in the order of the list; an identifier that
  \<open>get\<close> does not find contributes no object, and every found record is there. The
  bundle is the same whatever the files contain (it holds metadata, no blob bytes), and
  \<open>export_car\<close> writes its serialisation to \<open>output_path\<close> without changing the index.
\<close>

theorem export_car_bundle:
  "version (export_bundle s cids) = 1 \<and>
   objects (export_bundle s cids) = List.map_filter (get s) cids \<and>
   (\<forall>c. get s c = None \<longrightarrow> c \<notin> cid ` set (objects (export_bundle s cids))) \<and>
   (\<forall>c r. get s c = Some r \<and> c \<in> set cids \<longrightarrow> r \<in> set (objects (export_bundle s cids))) \<and>
   export_bundle (s\<lparr>fs := f\<rparr>) cids = export_bundle s cids \<and>
   fs (export_car d s cids output_path) output_path = Some (d (export_bundle s cids)) \<and>
   db (export_car d s cids output_path) = db s"
proof -
  have v: "version (export_bundle s cids) = 1"
    by (simp add: export_bundle_def)
  have o: "objects (export_bundle s cids) = List.map_filter (get s) cids"
    by (simp add: export_bundle_def export_loop_map_filter)
  have a: "\<forall>c. get s c = None \<longrightarrow> c \<notin> cid ` set (objects (export_bundle s cids))"
  proof (intro allI impI notI)
    fix c
    assume n: "get s c = None" and "c \<in> cid ` set (objects (export_bundle s cids))"
    then obtain c' r where r: "get s c' = Some r" "cid r = c"
      by (auto simp: o map_filter_def)
    from get_SomeD [OF r(1)] r n show False by simp
  qed
  have b: "\<forall>c r. get s c = Some r \<and> c \<in> set cids \<longrightarrow> r \<in> set (objects (export_bundle s cids))"
    by (force simp: o map_filter_def)
  have "get (s\<lparr>fs := f\<rparr>) = get s"
    by (simp add: fun_eq_iff get_def)
  then have e: "export_bundle (s\<lparr>fs := f\<rparr>) cids = export_bundle s cids"
    by (simp add: export_bundle_def export_loop_map_filter)
  have w: "fs (export_car d s cids output_path) output_path = Some (d (export_bundle s cids))"
    and x: "db (export_car d s cids output_path) = db s"
    by (simp_all add: export_car_def)
  from v o a b e w x show ?thesis by blast
qed

text \<open>One identifier of the index and one unknown identifier.\<close>

theorem export_car_bundle_witness:
  "get (demo_store [demo_obj ''Qma'' True 0] [''Qma'']) ''Qma'' = Some (demo_obj ''Qma'' True 0) \<and>
   get (demo_store [demo_obj ''Qma'' True 0] [''Qma'']) ''Qmx'' = None \<and>
   export_bundle (demo_store [demo_obj ''Qma'' True 0] [''Qma'']) [''Qma'', ''Qmx'']
     = \<lparr>version = 1, objects = [demo_obj ''Qma'' True 0]\<rparr> \<and>
   ''Qmx'' \<notin> cid ` set (objects
      (export_bundle (demo_store [demo_obj ''Qma'' True 0] [''Qma'']) [''Qma'', ''Qmx'']))"
proof -
  let ?s = "demo_store [demo_obj ''Qma'' True 0] [''Qma'']"
  have 1: "get ?s ''Qma'' = Some (demo_obj ''Qma'' True 0)" by (simp add: demo_simps)
  have 2: "get ?s ''Qmx'' = None" by (simp add: demo_simps)
  have 3: "List.map_filter (get ?s) [''Qma'', ''Qmx''] = [demo_obj ''Qma'' True 0]"
    by (simp add: map_filter_simps 1 2)
  from export_car_bundle [of ?s "[''Qma'', ''Qmx'']" "fs ?s" "\<lambda>b. []" "''/tmp/out.car''"] 1 2 3
  show ?thesis by (cases "export_bundle ?s [''Qma'', ''Qmx'']") simp
qed

section \<open>Pin and unpin\<close>

lemma find_map_set_pinned:
  "find (\<lambda>r. cid r = c') (map (\<lambda>r. if cid r = c then r\<lparr>pinned := b\<rparr> else r) xs) =
     map_option (\<lambda>r. if cid r = c then r\<lparr>pinned := b\<rparr> else r) (find (\<lambda>r. cid r = c') xs)"
  by (induction xs) auto

lemma filter_other_set_pinned:
  "filter (\<lambda>r. cid r \<noteq> c) (map (\<lambda>r. if cid r = c then r\<lparr>pinned := b\<rparr> else r) xs) =
     filter (\<lambda>r. cid r \<noteq> c) xs"
  by (induction xs) auto

text \<open>
  Claim C10. For an identifier of the index, \<open>pin\<close> and \<open>unpin\<close> return \<open>True\<close>;
  afterwards \<open>get\<close> returns the same record with only \<open>pinned\<close> set (to \<open>True\<close>,
  resp. \<open>False\<close>), \<open>get\<close> of every other identifier returns what it did, the rows with
  another identifier are the same rows in the same order, the table has as many rows,
  and the files, the printed output and the home directory are unchanged. For an
  identifier that is not in the index both return \<open>False\<close> and the state is unchanged.
\<close>

theorem pin_unpin_frame:
  "(get s c = Some r \<longrightarrow>
      fst (pin s c) = True \<and> fst (unpin s c) = True \<and>
      get (snd (pin s c)) c = Some (r\<lparr>pinned := True\<rparr>) \<and>
      get (snd (unpin s c)) c = Some (r\<lparr>pinned := False\<rparr>) \<and>
      (\<forall>c'. c' \<noteq> c \<longrightarrow> get (snd (pin s c)) c' = get s c' \<and> get (snd (unpin s c)) c' = get s c') \<and>
      filter (\<lambda>r. cid r \<noteq> c) (db (snd (pin s c))) = filter (\<lambda>r. cid r \<noteq> c) (db s) \<and>
      filter (\<lambda>r. cid r \<noteq> c) (db (snd (unpin s c))) = filter (\<lambda>r. cid r \<noteq> c) (db s) \<and>
      length (db (snd (pin s c))) = length (db s) \<and>
      length (db (snd (unpin s c))) = length (db s) \<and>
      fs (snd (pin s c)) = fs s \<and> fs (snd (unpin s c)) = fs s \<and>
      out (snd (pin s c)) = out s \<and> out (snd (unpin s c)) = out s \<and>
      home_dir (snd (pin s c)) = home_dir s \<and> home_dir (snd (unpin s c)) = home_dir s) \<and>
   (get s c = None \<longrightarrow> pin s c = (False, s) \<and> unpin s c = (False, s))"
proof (intro conjI impI)
  assume r: "get s c = Some r"
  have c: "cid r = c" using get_SomeD [OF r] by simp
  show "fst (pin s c) = True" "fst (unpin s c) = True"
    using r by (simp_all add: pin_def unpin_def)
  show "get (snd (pin s c)) c = Some (r\<lparr>pinned := True\<rparr>)"
    using r c by (simp add: pin_def get_def find_map_set_pinned)
  show "get (snd (unpin s c)) c = Some (r\<lparr>pinned := False\<rparr>)"
    using r c by (simp add: unpin_def get_def find_map_set_pinned)
  show "\<forall>c'. c' \<noteq> c \<longrightarrow> get (snd (pin s c)) c' = get s c' \<and> get (snd (unpin s c)) c' = get s c'"
  proof (intro allI impI)
    fix c' :: string
    assume "c' \<noteq> c"
    then have "map_option (\<lambda>r. if cid r = c then r\<lparr>pinned := b\<rparr> else r)
        (find (\<lambda>r. cid r = c') (db s)) = find (\<lambda>r. cid r = c') (db s)" for b
      by (cases "find (\<lambda>r. cid r = c') (db s)") (auto dest: find_SomeD)
    then show "get (snd (pin s c)) c' = get s c' \<and> get (snd (unpin s c)) c' = get s c'"
      using r by (simp add: pin_def unpin_def get_def find_map_set_pinned)
  qed
  show "filter (\<lambda>r. cid r \<noteq> c) (db (snd (pin s c))) = filter (\<lambda>r. cid r \<noteq> c) (db s)"
    "filter (\<lambda>r. cid r \<noteq> c) (db (snd (unpin s c))) = filter (\<lambda>r. cid r \<noteq> c) (db s)"
    using r by (simp_all add: pin_def unpin_def filter_other_set_pinned)
  show "length (db (snd (pin s c))) = length (db s)" "length (db (snd (unpin s c))) = length (db s)"
    "fs (snd (pin s c)) = fs s" "fs (snd (unpin s c)) = fs s"
    "out (snd (pin s c)) = out s" "out (snd (unpin s c)) = out s"
    "home_dir (snd (pin s c)) = home_dir s" "home_dir (snd (unpin s c)) = home_dir s"
    using r by (simp_all add: pin_def unpin_def)
next
  assume "get s c = None"
  then show "pin s c = (False, s)" "unpin s c = (False, s)"
    by (simp_all add: pin_def unpin_def)
qed

text \<open>Pinning an unpinned record, unpinning a pinned one, and an unknown identifier.\<close>

theorem pin_unpin_frame_witness:
  "get (demo_store [demo_obj ''Qma'' False 0, demo_obj ''Qmb'' True 3] [''Qma'', ''Qmb'']) ''Qma''
     = Some (demo_obj ''Qma'' False 0) \<and>
   get (snd (pin (demo_store [demo_obj ''Qma'' False 0, demo_obj ''Qmb'' True 3] [''Qma'', ''Qmb''])
     ''Qma'')) ''Qma'' = Some (demo_obj ''Qma'' True 0) \<and>
   get (snd (pin (demo_store [demo_obj ''Qma'' False 0, demo_obj ''Qmb'' True 3] [''Qma'', ''Qmb''])
     ''Qma'')) ''Qmb'' = Some (demo_obj ''Qmb'' True 3) \<and>
   get (demo_store [demo_obj ''Qma'' False 0, demo_obj ''Qmb'' True 3] [''Qma'', ''Qmb'']) ''Qmb''
     = Some (demo_obj ''Qmb'' True 3) \<and>
   get (snd (unpin (demo_store [demo_obj ''Qma'' False 0, demo_obj ''Qmb'' True 3] [''Qma'', ''Qmb''])
     ''Qmb'')) ''Qmb'' = Some (demo_obj ''Qmb'' False 3) \<and>
   get (demo_store [demo_obj ''Qma'' False 0, demo_obj ''Qmb'' True 3] [''Qma'', ''Qmb'']) ''Qmx''
     = None \<and>
   pin (demo_store [demo_obj ''Qma'' False 0, demo_obj ''Qmb'' True 3] [''Qma'', ''Qmb'']) ''Qmx''
     = (False, demo_store [demo_obj ''Qma'' False 0, demo_obj ''Qmb'' True 3] [''Qma'', ''Qmb'']) \<and>
   unpin (demo_store [demo_obj ''Qma'' False 0, demo_obj ''Qmb'' True 3] [''Qma'', ''Qmb'']) ''Qmx''
     = (False, demo_store [demo_obj ''Qma'' False 0, demo_obj ''Qmb'' True 3] [''Qma'', ''Qmb''])"
proof -
  let ?s = "demo_store [demo_obj ''Qma'' False 0, demo_obj ''Qmb'' True 3] [''Qma'', ''Qmb'']"
  have 1: "get ?s ''Qma'' = Some (demo_obj ''Qma'' False 0)" by (simp add: demo_simps)
  have 2: "get ?s ''Qmb'' = Some (demo_obj ''Qmb'' True 3)" by (simp add: demo_simps)
  have 3: "get ?s ''Qmx'' = None" by (simp add: demo_simps)
  have 4: "(demo_obj ''Qma'' False 0)\<lparr>pinned := True\<rparr> = demo_obj ''Qma'' True 0"
    "(demo_obj ''Qmb'' True 3)\<lparr>pinned := False\<rparr> = demo_obj ''Qmb'' False 3"
    by (simp_all add: demo_obj_def)
  have 5: "''Qmb'' \<noteq> ''Qma''" by simp
  from pin_unpin_frame [of ?s "''Qma''" "demo_obj ''Qma'' False 0"]
    pin_unpin_frame [of ?s "''Qmb''" "demo_obj ''Qmb'' True 3"]
    pin_unpin_frame [of ?s "''Qmx''" "demo_obj ''Qmb'' True 3"]
    1 2 3 4 5
  show ?thesis by simp
qed

end
